theory Spec2Isabelle
  imports Main
begin

section \<open>The NEG syncer skeleton of pkg/neg/syncers/syncer.go\<close>

text \<open>
  The syncer is a struct with a mutex for its two state flags, a signal channel, and a
  background goroutine started by \<open>Start\<close>. The embedding is a record for the struct and
  a transition system over it whose steps are the pieces of code that run without
  releasing \<open>stateLock\<close> or that touch the channel once. \<open>Stop\<close> holds the lock for its
  whole body and is one step. \<open>Start\<close> takes the lock three times, in \<open>IsStopped\<close>, in
  \<open>IsShuttingDown\<close> and in \<open>init\<close>, and then spawns the goroutine: four steps.
  \<open>Sync\<close> takes it in \<open>IsStopped\<close> and then sends without it: two steps. The loop is
  three kinds of step: its body up to the \<open>select\<close>, the \<open>select\<close>, and the locked
  write of \<open>shuttingDown\<close> before it returns. Steps of different callers and of the loop
  interleave in any order. Time is abstract: an armed retry timer may have fired at any
  later step.
\<close>

subsection \<open>Identity, services and events\<close>

text \<open>The embedded \<open>NegSyncerKey\<close>; the code reads its \<open>Namespace\<close> and \<open>Name\<close>.\<close>

record NegSyncerKey =
  Namespace :: string
  Name :: string

record Service =
  svcNamespace :: string
  svcName :: string

text \<open>
  One call of \<open>recorder.Eventf\<close>: the subject, the event type, the reason and the three
  arguments of the format string \<open>Failed to sync NEG %q %s: %v\<close>.
\<close>

record Event =
  subject :: Service
  eventtype :: string
  reason :: string
  argNegName :: string
  argRetryMesg :: string
  argErr :: string

type_synonym indexer = "string \<times> string \<Rightarrow> Service option"

text \<open>
  Modelled from the spec: \<open>getService\<close> is not part of the given sources. The spec describes
  the service lookup as \<open>(namespace, name) -> Option<ServiceRef>\<close>; \<open>nil\<close> is \<open>None\<close>.
\<close>

definition getService :: "indexer \<Rightarrow> string \<Rightarrow> string \<Rightarrow> Service option" where
  "getService lister ns n = lister (ns, n)"

subsection \<open>Backoff policy\<close>

type_synonym duration = nat

datatype backoff_error = ErrRetriesExceeded

record backoffHandler =
  maxRetries :: nat
  minRetryDelay :: duration
  maxRetryDelay :: duration
  retryCount :: nat

text \<open>
  Modelled from the spec: \<open>NewExponentialBackendOffHandler\<close> is not part of the given sources.
  The policy has a minimum delay, a maximum delay and a maximum retry count; its attempt
  count is 0 on construction.
\<close>

definition NewExponentialBackendOffHandler :: "nat \<Rightarrow> duration \<Rightarrow> duration \<Rightarrow> backoffHandler" where
  "NewExponentialBackendOffHandler retries minDelay maxDelay =
     \<lparr>maxRetries = retries, minRetryDelay = minDelay, maxRetryDelay = maxDelay, retryCount = 0\<rparr>"

text \<open>
  Modelled from the spec: \<open>NextRetryDelay\<close> is not part of the given sources. It returns a
  delay and increments the attempt counter; once the counter would exceed the configured
  maximum it reports exhausted retries and does not increment further. The delay grows
  exponentially with the attempt count, starts at the minimum delay and is clamped to the
  maximum delay.
\<close>

definition NextRetryDelay :: "backoffHandler \<Rightarrow> (duration \<times> backoff_error option) \<times> backoffHandler" where
  "NextRetryDelay b =
     (if maxRetries b < retryCount b + 1 then ((0, Some ErrRetriesExceeded), b)
      else ((min (maxRetryDelay b) (minRetryDelay b * 2 ^ retryCount b), None),
            b\<lparr>retryCount := retryCount b + 1\<rparr>))"

text \<open>
  Modelled from the spec: \<open>ResetRetryDelay\<close> is not part of the given sources. It sets the
  attempt counter to 0 unconditionally.
\<close>

definition ResetRetryDelay :: "backoffHandler \<Rightarrow> backoffHandler" where
  "ResetRetryDelay b = b\<lparr>retryCount := 0\<rparr>"

subsection \<open>Channels\<close>

text \<open>
  A Go channel of \<open>interface{}\<close> on which only \<open>struct{}{}\<close> is sent: its state is its
  capacity, the number of buffered values and whether it has been closed. A \<open>nil\<close> channel
  is \<open>None\<close>.
\<close>

record chan =
  capacity :: nat
  buffered :: nat
  is_closed :: bool

definition make_chan :: "nat \<Rightarrow> chan" where
  "make_chan n = \<lparr>capacity = n, buffered = 0, is_closed = False\<rparr>"

datatype fault = PanicSendOnClosedChannel | PanicCloseOfNilChannel | PanicCloseOfClosedChannel

text \<open>\<open>close(ch)\<close> panics on a nil channel and on a closed one.\<close>

definition close_chan :: "chan option \<Rightarrow> fault + chan option" where
  "close_chan ch =
     (case ch of
        None \<Rightarrow> Inl PanicCloseOfNilChannel
      | Some c \<Rightarrow> if is_closed c then Inl PanicCloseOfClosedChannel
                  else Inr (Some (c\<lparr>is_closed := True\<rparr>)))"

subsection \<open>The syncer\<close>

text \<open>
  The result of the sync function is a Go \<open>error\<close>: \<open>None\<close> is \<open>nil\<close>, \<open>Some e\<close> an error
  with message \<open>e\<close>. A Go closure may answer differently from call to call; the embedding
  gives it the number of calls the loop has made so far.
\<close>

type_synonym sync_func = "nat \<Rightarrow> string option"

text \<open>
  A background goroutine of \<open>Start\<close> is about to run the loop body (\<open>AtSyncFunc\<close>), or
  waits in the \<open>select\<close> with its local \<open>retryCh\<close> (\<open>None\<close> is the channel that never
  fires, \<open>Some d\<close> is \<open>clock.After(d)\<close>), or has received \<open>open = false\<close> and is about to
  take the lock, clear \<open>shuttingDown\<close> and return (\<open>AtReturn\<close>).
\<close>

datatype goroutine = AtSyncFunc | AtSelect "duration option" | AtReturn

text \<open>
  A call of \<open>Start\<close> or \<open>Sync\<close> that has released the lock and not yet returned, named
  by what it has done: \<open>Start\<close> after \<open>IsStopped()\<close> returned true, after
  \<open>IsShuttingDown()\<close> returned false, after \<open>init()\<close>; \<open>Sync\<close> after \<open>IsStopped()\<close>
  returned false.
\<close>

datatype caller = StartTestedStopped | StartTestedShuttingDown | StartInitDone | SyncTestedStopped

text \<open>
  The fields of the struct, in its order. \<open>recorder\<close> is the list of events recorded so
  far. Three components are not fields of the struct: \<open>syncCalls\<close> counts the calls of
  \<open>syncFunc\<close>, \<open>goroutines\<close> holds the live background goroutines and \<open>callers\<close> the
  calls of \<open>Start\<close> and \<open>Sync\<close> in progress. \<open>stateLock\<close> and \<open>clock\<close> have no state of
  their own here.
\<close>

record syncer =
  key :: NegSyncerKey
  negName :: string
  syncFunc :: sync_func
  serviceLister :: indexer
  recorder :: "Event list"
  stopped :: bool
  shuttingDown :: bool
  syncCh :: "chan option"
  backoff :: backoffHandler
  syncCalls :: nat
  goroutines :: "goroutine list"
  callers :: "caller list"

text \<open>
  \<open>newSyncer\<close>. The package constants \<open>maxRetries\<close>, \<open>minRetryDelay\<close> and
  \<open>maxRetryDelay\<close> are not part of the given sources and are parameters here.
\<close>

definition newSyncer ::
  "NegSyncerKey \<Rightarrow> string \<Rightarrow> indexer \<Rightarrow> Event list \<Rightarrow> nat \<Rightarrow> duration \<Rightarrow> duration \<Rightarrow> syncer" where
  "newSyncer negSyncerKey networkEndpointGroupName lister rec retries minDelay maxDelay =
     \<lparr>key = negSyncerKey,
      negName = networkEndpointGroupName,
      syncFunc = (\<lambda>_. None),
      serviceLister = lister,
      recorder = rec,
      stopped = True,
      shuttingDown = False,
      syncCh = None,
      backoff = NewExponentialBackendOffHandler retries minDelay maxDelay,
      syncCalls = 0,
      goroutines = [],
      callers = []\<rparr>"

definition IsStopped :: "syncer \<Rightarrow> bool" where
  "IsStopped s = stopped s"

definition IsShuttingDown :: "syncer \<Rightarrow> bool" where
  "IsShuttingDown s = shuttingDown s"

definition init :: "syncer \<Rightarrow> syncer" where
  "init s = s\<lparr>stopped := False, syncCh := Some (make_chan 1)\<rparr>"

datatype start_error = ErrAlreadyRunning NegSyncerKey | ErrShuttingDown NegSyncerKey

subsection \<open>The methods, run without interruption\<close>

text \<open>
  \<open>Start\<close> as one caller runs it when nothing else runs in between. It returns its
  error (\<open>None\<close> is \<open>nil\<close>) and the state it leaves. The \<open>go\<close> statement adds a
  goroutine at the top of the loop.
\<close>

definition Start :: "syncer \<Rightarrow> start_error option \<times> syncer" where
  "Start s =
     (if \<not> IsStopped s then (Some (ErrAlreadyRunning (key s)), s)
      else if IsShuttingDown s then (Some (ErrShuttingDown (key s)), s)
      else (let s1 = init s
            in (None, s1\<lparr>goroutines := goroutines s1 @ [AtSyncFunc]\<rparr>)))"

text \<open>\<open>Stop\<close>: the whole body runs under the lock.\<close>

definition Stop :: "syncer \<Rightarrow> fault + syncer" where
  "Stop s =
     (if \<not> stopped s then
        (case close_chan (syncCh s) of
           Inl f \<Rightarrow> Inl f
         | Inr ch \<Rightarrow> Inr (s\<lparr>stopped := True, shuttingDown := True, syncCh := ch\<rparr>))
      else Inr s)"

text \<open>
  The \<open>select\<close> of \<open>Sync\<close>, with its send case and its \<open>default\<close>. A send on a nil
  channel is never ready, a send on a closed channel panics, a send on an open channel
  is ready when the buffer has room.
\<close>

definition send_or_default :: "syncer \<Rightarrow> fault + bool \<times> syncer" where
  "send_or_default s =
     (case syncCh s of
        None \<Rightarrow> Inr (False, s)
      | Some c \<Rightarrow>
          if is_closed c then Inl PanicSendOnClosedChannel
          else if buffered c < capacity c
            then Inr (True, s\<lparr>syncCh := Some (c\<lparr>buffered := buffered c + 1\<rparr>)\<rparr>)
            else Inr (False, s))"

text \<open>\<open>Sync\<close> as one caller runs it when nothing else runs in between.\<close>

definition Sync :: "syncer \<Rightarrow> fault + bool \<times> syncer" where
  "Sync s = (if IsStopped s then Inr (False, s) else send_or_default s)"

definition SetSyncFunc :: "sync_func \<Rightarrow> syncer \<Rightarrow> syncer" where
  "SetSyncFunc f s = s\<lparr>syncFunc := f\<rparr>"

subsection \<open>Start and Sync, step by step\<close>

text \<open>What a call returns: the error of \<open>Start\<close> or the boolean of \<open>Sync\<close>.\<close>

datatype call_result = StartReturned "start_error option" | SyncReturned bool

text \<open>
  The first step of a call of \<open>Start\<close>: \<open>IsStopped()\<close>. The call returns the "already
  running" error at once, or goes on as a new entry at the end of \<open>callers\<close>.
\<close>

definition begin_Start :: "syncer \<Rightarrow> call_result option \<times> syncer" where
  "begin_Start s =
     (if \<not> IsStopped s then (Some (StartReturned (Some (ErrAlreadyRunning (key s)))), s)
      else (None, s\<lparr>callers := callers s @ [StartTestedStopped]\<rparr>))"

text \<open>The first step of a call of \<open>Sync\<close>: \<open>IsStopped()\<close>.\<close>

definition begin_Sync :: "syncer \<Rightarrow> call_result option \<times> syncer" where
  "begin_Sync s =
     (if IsStopped s then (Some (SyncReturned False), s)
      else (None, s\<lparr>callers := callers s @ [SyncTestedStopped]\<rparr>))"

text \<open>
  The next step of the call at position \<open>i\<close> of \<open>callers\<close>: for \<open>Start\<close> the test
  \<open>IsShuttingDown()\<close>, then \<open>init()\<close>, which does not test the flags again, then the
  \<open>go\<close> statement and \<open>return nil\<close>; for \<open>Sync\<close> the \<open>select\<close>. A call that returns
  leaves \<open>callers\<close>, and its result is given.
\<close>

definition caller_step :: "nat \<Rightarrow> syncer \<Rightarrow> fault + call_result option \<times> syncer" where
  "caller_step i s =
     (if i < length (callers s) then
        (case callers s ! i of
           StartTestedStopped \<Rightarrow>
             if IsShuttingDown s
               then Inr (Some (StartReturned (Some (ErrShuttingDown (key s)))),
                         s\<lparr>callers := take i (callers s) @ drop (Suc i) (callers s)\<rparr>)
               else Inr (None, s\<lparr>callers := (callers s)[i := StartTestedShuttingDown]\<rparr>)
         | StartTestedShuttingDown \<Rightarrow>
             Inr (None, (init s)\<lparr>callers := (callers s)[i := StartInitDone]\<rparr>)
         | StartInitDone \<Rightarrow>
             Inr (Some (StartReturned None),
                  s\<lparr>goroutines := goroutines s @ [AtSyncFunc],
                    callers := take i (callers s) @ drop (Suc i) (callers s)\<rparr>)
         | SyncTestedStopped \<Rightarrow>
             (case send_or_default (s\<lparr>callers := take i (callers s) @ drop (Suc i) (callers s)\<rparr>) of
                Inl f \<Rightarrow> Inl f
              | Inr r \<Rightarrow> Inr (Some (SyncReturned (fst r)), snd r)))
      else Inr (None, s))"

subsection \<open>The background loop\<close>

definition failure_event :: "Service \<Rightarrow> string \<Rightarrow> string \<Rightarrow> string \<Rightarrow> Event" where
  "failure_event svc n retryMesg e =
     \<lparr>subject = svc, eventtype = ''Warning'', reason = ''SyncNetworkEndpointGroupFailed'',
      argNegName = n, argRetryMesg = retryMesg, argErr = e\<rparr>"

text \<open>
  The loop body of goroutine \<open>i\<close>, from \<open>retryCh := make(<-chan time.Time)\<close> to the
  \<open>select\<close>: it leaves the goroutine waiting with the \<open>retryCh\<close> it computed. The body
  reads \<open>syncFunc\<close> once and otherwise touches only \<open>backoff\<close> and the recorder, which no
  method reads or writes, so no step of a method can tell where inside the body it falls.
\<close>

definition loop_body :: "nat \<Rightarrow> syncer \<Rightarrow> syncer" where
  "loop_body i s =
     (let err = syncFunc s (syncCalls s);
          s1 = s\<lparr>syncCalls := syncCalls s + 1\<rparr>
      in case err of
           Some e \<Rightarrow>
             (let r = NextRetryDelay (backoff s1);
                  delay = fst (fst r);
                  retryErr = snd (fst r);
                  s2 = s1\<lparr>backoff := snd r\<rparr>;
                  retryCh = (if retryErr = Some ErrRetriesExceeded then None else Some delay);
                  retryMesg = (if retryErr = Some ErrRetriesExceeded
                               then ''(will not retry)'' else ''(will retry)'');
                  s3 = (case getService (serviceLister s2) (Namespace (key s2)) (Name (key s2)) of
                          Some svc \<Rightarrow>
                            s2\<lparr>recorder := recorder s2 @ [failure_event svc (negName s2) retryMesg e]\<rparr>
                        | None \<Rightarrow> s2)
              in s3\<lparr>goroutines := (goroutines s3)[i := AtSelect retryCh]\<rparr>)
         | None \<Rightarrow>
             (let s2 = s1\<lparr>backoff := ResetRetryDelay (backoff s1)\<rparr>
              in s2\<lparr>goroutines := (goroutines s2)[i := AtSelect None]\<rparr>))"

text \<open>
  The \<open>select\<close> of goroutine \<open>i\<close>, waiting with \<open>retryCh\<close>. The receive on \<open>syncCh\<close> is
  ready when a value is buffered (it is taken, and \<open>open\<close> is true) or, with an empty
  buffer, when the channel is closed (\<open>open\<close> is false). A nil channel is never ready.
  When both cases are ready Go picks one at random: \<open>w\<close> is that pick. \<open>WakeRetry\<close> also
  says that an armed timer has fired by now. With no case ready the goroutine stays
  blocked. The goroutine reads the field \<open>syncCh\<close> when it takes this step, so after
  an \<open>init\<close> it waits on the new channel; a receive from the channel it replaced is
  this step taken before that \<open>init\<close>.
\<close>

datatype wake = WakeSignal | WakeRetry

definition loop_select :: "wake \<Rightarrow> nat \<Rightarrow> duration option \<Rightarrow> syncer \<Rightarrow> syncer" where
  "loop_select w i retryCh s =
     (if w = WakeRetry \<and> retryCh \<noteq> None
        then s\<lparr>goroutines := (goroutines s)[i := AtSyncFunc]\<rparr>
      else (case syncCh s of
              None \<Rightarrow> s
            | Some c \<Rightarrow>
                if 0 < buffered c
                  then s\<lparr>syncCh := Some (c\<lparr>buffered := buffered c - 1\<rparr>),
                         goroutines := (goroutines s)[i := AtSyncFunc]\<rparr>
                else if is_closed c
                  then s\<lparr>goroutines := (goroutines s)[i := AtReturn]\<rparr>
                else s))"

text \<open>
  The end of goroutine \<open>i\<close> after \<open>open = false\<close>: under the lock it clears
  \<open>shuttingDown\<close>, then it returns.
\<close>

definition loop_return :: "nat \<Rightarrow> syncer \<Rightarrow> syncer" where
  "loop_return i s =
     s\<lparr>shuttingDown := False,
       goroutines := take i (goroutines s) @ drop (Suc i) (goroutines s)\<rparr>"

definition loop_step :: "wake \<Rightarrow> nat \<Rightarrow> syncer \<Rightarrow> syncer" where
  "loop_step w i s =
     (if i < length (goroutines s) then
        (case goroutines s ! i of
           AtSyncFunc \<Rightarrow> loop_body i s
         | AtSelect retryCh \<Rightarrow> loop_select w i retryCh s
         | AtReturn \<Rightarrow> loop_return i s)
      else s)"

subsection \<open>Runs of the system\<close>

text \<open>
  What can happen to a syncer: a caller begins \<open>Start\<close> or \<open>Sync\<close>, a call in progress
  takes its next step, \<open>Stop\<close> or \<open>SetSyncFunc\<close> is called, or a goroutine takes a step.
  A panic ends the run.
\<close>

datatype action =
    BeginStart
  | BeginSync
  | CallerStep nat
  | CallStop
  | CallSetSyncFunc sync_func
  | LoopStep nat wake

definition step :: "action \<Rightarrow> syncer \<Rightarrow> fault + syncer" where
  "step a s =
     (case a of
        BeginStart \<Rightarrow> Inr (snd (begin_Start s))
      | BeginSync \<Rightarrow> Inr (snd (begin_Sync s))
      | CallerStep i \<Rightarrow> (case caller_step i s of Inl f \<Rightarrow> Inl f | Inr r \<Rightarrow> Inr (snd r))
      | CallStop \<Rightarrow> Stop s
      | CallSetSyncFunc f \<Rightarrow> Inr (SetSyncFunc f s)
      | LoopStep i w \<Rightarrow> Inr (loop_step w i s))"

fun exec :: "action list \<Rightarrow> syncer \<Rightarrow> fault + syncer" where
  "exec [] s = Inr s"
| "exec (a # as) s = (case step a s of Inl f \<Rightarrow> Inl f | Inr s' \<Rightarrow> exec as s')"

inductive reachable :: "syncer \<Rightarrow> bool" where
  reachable_new: "reachable (newSyncer k n lister rec retries minDelay maxDelay)"
| reachable_step: "reachable s \<Longrightarrow> step a s = Inr s' \<Longrightarrow> reachable s'"

text \<open>The three states of the lifecycle.\<close>

definition Idle :: "syncer \<Rightarrow> bool" where
  "Idle s = (stopped s \<and> \<not> shuttingDown s)"

definition Running :: "syncer \<Rightarrow> bool" where
  "Running s = (\<not> stopped s)"

definition Stopping :: "syncer \<Rightarrow> bool" where
  "Stopping s = (stopped s \<and> shuttingDown s)"

subsection \<open>What holds in every reachable state\<close>

text \<open>
  \<open>init\<close> and \<open>Stop\<close> write \<open>stopped\<close> and the channel under one lock: the channel is
  closed exactly when the syncer is stopped, it has capacity 1, and it is nil only as
  long as no \<open>init\<close> has run, when the flags are those of a new syncer, no goroutine
  lives and no call has passed the tests of \<open>Start\<close> and run \<open>init\<close>, or passed the test
  of \<open>Sync\<close>.
\<close>

definition channel_inv :: "syncer \<Rightarrow> bool" where
  "channel_inv s =
     (case syncCh s of
        None \<Rightarrow> stopped s \<and> \<not> shuttingDown s \<and> goroutines s = [] \<and>
                (\<forall>c \<in> set (callers s). c = StartTestedStopped \<or> c = StartTestedShuttingDown)
      | Some c \<Rightarrow> capacity c = 1 \<and> buffered c \<le> 1 \<and> (is_closed c = stopped s))"

subsection \<open>Example states\<close>

text \<open>
  A syncer for the service \<open>default/web\<close>, which the lister knows, with 3 retries between
  1 and 60 time units; then the same syncer after \<open>Start\<close>; after \<open>Start\<close> and a
  \<open>Sync\<close>; after \<open>Start\<close> and \<open>Stop\<close>; and after \<open>Start\<close>, \<open>Stop\<close> and the three steps
  of the goroutine that take it through one sync to its return.
\<close>

definition demo_key :: NegSyncerKey where
  "demo_key = \<lparr>Namespace = ''default'', Name = ''web''\<rparr>"

definition demo_lister :: indexer where
  "demo_lister p = (if p = (''default'', ''web'')
                    then Some \<lparr>svcNamespace = ''default'', svcName = ''web''\<rparr> else None)"

definition demo_syncer :: syncer where
  "demo_syncer = newSyncer demo_key ''neg-web'' demo_lister [] 3 1 60"

definition demo_running :: syncer where
  "demo_running = snd (Start demo_syncer)"

definition demo_pending :: syncer where
  "demo_pending = demo_running\<lparr>syncCh := Some \<lparr>capacity = 1, buffered = 1, is_closed = False\<rparr>\<rparr>"

definition demo_stopping :: syncer where
  "demo_stopping = demo_running\<lparr>stopped := True, shuttingDown := True,
     syncCh := Some \<lparr>capacity = 1, buffered = 0, is_closed = True\<rparr>\<rparr>"

definition demo_exited :: syncer where
  "demo_exited = demo_stopping\<lparr>shuttingDown := False, syncCalls := 1, goroutines := []\<rparr>"

text \<open>
  The same syncer given a sync function that always fails, then started; and that syncer
  after three failed iterations, each woken by its retry timer.
\<close>

definition demo_failing :: syncer where
  "demo_failing = snd (Start (SetSyncFunc (\<lambda>_. Some ''quota exceeded'') demo_syncer))"

definition demo_exhausted :: syncer where
  "demo_exhausted =
     loop_step WakeRetry 0 (loop_step WakeRetry 0
       (loop_step WakeRetry 0 (loop_step WakeRetry 0
         (loop_step WakeRetry 0 (loop_step WakeRetry 0 demo_failing)))))"

subsection \<open>Runs in which the sync function is never replaced\<close>

fun is_SetSyncFunc :: "action \<Rightarrow> bool" where
  "is_SetSyncFunc (CallSetSyncFunc f) = True"
| "is_SetSyncFunc _ = False"

text \<open>
  What such runs keep: the sync function answers nil at every call, the attempt count of
  the backoff policy is 0, the recorder holds the events \<open>evs\<close> it was given, and no
  goroutine waits with an armed retry timer.
\<close>

definition default_inv :: "Event list \<Rightarrow> syncer \<Rightarrow> bool" where
  "default_inv evs s =
     ((\<forall>j. syncFunc s j = None) \<and> retryCount (backoff s) = 0 \<and> recorder s = evs \<and>
      (\<forall>g \<in> set (goroutines s). g = AtSyncFunc \<or> g = AtSelect None \<or> g = AtReturn))"

subsection \<open>Interleavings in which the calls race\<close>

text \<open>
  The running example syncer with a call of \<open>Sync\<close> in progress, which found it running.
\<close>

definition demo_sync_tested :: syncer where
  "demo_sync_tested = demo_running\<lparr>callers := [SyncTestedStopped]\<rparr>"

text \<open>
  Two calls of \<open>Start\<close> on the new example syncer: both have passed both tests; the
  first has run \<open>init\<close>; the first has returned; the second has run \<open>init\<close> too; both
  have returned.
\<close>

definition demo_both_tested :: syncer where
  "demo_both_tested = demo_syncer\<lparr>callers := [StartTestedShuttingDown, StartTestedShuttingDown]\<rparr>"

definition demo_first_init :: syncer where
  "demo_first_init = demo_syncer\<lparr>stopped := False,
     syncCh := Some \<lparr>capacity = 1, buffered = 0, is_closed = False\<rparr>,
     callers := [StartInitDone, StartTestedShuttingDown]\<rparr>"

definition demo_first_started :: syncer where
  "demo_first_started = demo_running\<lparr>callers := [StartTestedShuttingDown]\<rparr>"

definition demo_second_init :: syncer where
  "demo_second_init = demo_running\<lparr>callers := [StartInitDone]\<rparr>"

definition demo_two_loops :: syncer where
  "demo_two_loops = demo_running\<lparr>goroutines := [AtSyncFunc, AtSyncFunc]\<rparr>"

text \<open>
  A call of \<open>Start\<close> that passed both tests on the new example syncer, and whose \<open>init\<close>
  runs only after another caller's \<open>Start\<close> and \<open>Stop\<close>.
\<close>

definition demo_late_init :: syncer where
  "demo_late_init = demo_running\<lparr>shuttingDown := True, callers := [StartInitDone]\<rparr>"

subsection \<open>The loop after Stop\<close>






section \<open>Properties\<close>

subsection \<open>The invariant holds in every reachable state\<close>

lemma inv_new: "channel_inv (newSyncer k n lister rec retries minDelay maxDelay)"
  by (simp add: channel_inv_def newSyncer_def)

lemma inv_begin_Start: "channel_inv s \<Longrightarrow> channel_inv (snd (begin_Start s))"
  by (auto simp: channel_inv_def begin_Start_def split: option.splits)

lemma inv_begin_Sync: "channel_inv s \<Longrightarrow> channel_inv (snd (begin_Sync s))"
  by (auto simp: channel_inv_def begin_Sync_def IsStopped_def split: option.splits)

lemma inv_caller_step:
  assumes "channel_inv s" "caller_step i s = Inr (r, s')"
  shows "channel_inv s'"
proof (cases "i < length (callers s)")
  case False
  with assms show ?thesis by (simp add: caller_step_def)
next
  case True
  show ?thesis
  proof (cases "callers s ! i")
    case StartTestedStopped
    with assms True show ?thesis
      by (auto simp: channel_inv_def caller_step_def
               split: option.splits if_splits
               dest!: in_set_takeD in_set_dropD subsetD[OF set_update_subset_insert])
  next
    case StartTestedShuttingDown
    with assms True show ?thesis
      by (auto simp: channel_inv_def caller_step_def init_def make_chan_def)
  next
    case StartInitDone
    with True have "StartInitDone \<in> set (callers s)" by (metis nth_mem)
    with assms True StartInitDone show ?thesis
      by (auto simp: channel_inv_def caller_step_def split: option.splits)
  next
    case SyncTestedStopped
    with assms True show ?thesis
      by (auto simp: channel_inv_def caller_step_def send_or_default_def
               split: option.splits if_splits sum.splits
               dest!: in_set_takeD in_set_dropD)
  qed
qed

lemma inv_Stop: "channel_inv s \<Longrightarrow> Stop s = Inr s' \<Longrightarrow> channel_inv s'"
  by (auto simp: channel_inv_def Stop_def close_chan_def split: option.splits if_splits sum.splits)

lemma inv_SetSyncFunc: "channel_inv s \<Longrightarrow> channel_inv (SetSyncFunc f s)"
  by (auto simp: channel_inv_def SetSyncFunc_def split: option.splits if_splits)

lemma loop_body_frame:
  "stopped (loop_body i s) = stopped s"
  "shuttingDown (loop_body i s) = shuttingDown s"
  "syncCh (loop_body i s) = syncCh s"
  "callers (loop_body i s) = callers s"
  "length (goroutines (loop_body i s)) = length (goroutines s)"
  by (simp_all add: loop_body_def Let_def split: option.splits)

lemma loop_body_no_goroutine: "(goroutines (loop_body i s) = []) = (goroutines s = [])"
  using loop_body_frame(5)[of i s] by (simp only: length_0_conv[symmetric])

lemma inv_loop_body: "channel_inv s \<Longrightarrow> channel_inv (loop_body i s)"
  by (auto simp: channel_inv_def loop_body_frame loop_body_no_goroutine split: option.splits if_splits)

lemma inv_loop_select:
  "channel_inv s \<Longrightarrow> i < length (goroutines s) \<Longrightarrow> channel_inv (loop_select w i r s)"
  by (auto simp: channel_inv_def loop_select_def split: option.splits if_splits)

lemma inv_loop_return:
  "channel_inv s \<Longrightarrow> i < length (goroutines s) \<Longrightarrow> channel_inv (loop_return i s)"
  by (auto simp: channel_inv_def loop_return_def split: option.splits if_splits)

lemma inv_loop_step: "channel_inv s \<Longrightarrow> channel_inv (loop_step w i s)"
  by (simp add: loop_step_def inv_loop_body inv_loop_select inv_loop_return split: goroutine.splits)

lemma inv_step: "channel_inv s \<Longrightarrow> step a s = Inr s' \<Longrightarrow> channel_inv s'"
  by (cases a)
     (auto simp: step_def inv_begin_Start inv_begin_Sync inv_Stop inv_SetSyncFunc inv_loop_step
           split: sum.splits intro: inv_caller_step[of s])

lemma reachable_inv: "reachable s \<Longrightarrow> channel_inv s"
  by (induction rule: reachable.induct) (auto intro: inv_new inv_step)

lemma reachable_exec: "reachable s \<Longrightarrow> exec as s = Inr t \<Longrightarrow> reachable t"
proof (induction as arbitrary: s)
  case Nil
  then show ?case by simp
next
  case (Cons a as)
  then show ?case
    by (auto split: sum.splits intro: reachable_step)
qed

subsection \<open>A call that nothing interrupts is a run of its steps\<close>

lemma Start_as_run:
  "exec (if \<not> stopped s then [BeginStart]
         else if shuttingDown s then [BeginStart, CallerStep (length (callers s))]
         else [BeginStart, CallerStep (length (callers s)), CallerStep (length (callers s)),
               CallerStep (length (callers s))]) s = Inr (snd (Start s))"
  by (simp add: step_def begin_Start_def caller_step_def Start_def IsStopped_def
        IsShuttingDown_def init_def Let_def)


lemma reachable_Start:
  assumes "reachable s"
  shows "reachable (snd (Start s))"
  by (rule reachable_exec[OF assms Start_as_run])


subsection \<open>The example states are reachable\<close>

lemmas model_defs = newSyncer_def NewExponentialBackendOffHandler_def NextRetryDelay_def
  ResetRetryDelay_def make_chan_def close_chan_def IsStopped_def IsShuttingDown_def init_def
  Start_def Stop_def send_or_default_def Sync_def SetSyncFunc_def begin_Start_def begin_Sync_def
  caller_step_def failure_event_def loop_body_def loop_select_def loop_return_def
  loop_step_def step_def getService_def Let_def

lemma demo_syncer_reachable: "reachable demo_syncer"
  unfolding demo_syncer_def by (rule reachable_new)

lemma demo_running_reachable: "reachable demo_running"
  unfolding demo_running_def by (rule reachable_Start[OF demo_syncer_reachable])



lemma demo_stopping_step: "Stop demo_running = Inr demo_stopping"
  by (simp add: demo_stopping_def demo_running_def demo_syncer_def model_defs)

lemma demo_stopping_reachable: "reachable demo_stopping"
  by (rule reachable_step[OF demo_running_reachable, of CallStop])
     (simp add: step_def demo_stopping_step)

lemma demo_exited_steps:
  "loop_step WakeSignal 0 (loop_step WakeSignal 0 (loop_step WakeSignal 0 demo_stopping))
     = demo_exited"
  by (simp add: demo_exited_def demo_stopping_def demo_running_def demo_syncer_def model_defs)

lemma demo_exited_reachable: "reachable demo_exited"
proof -
  have "exec [LoopStep 0 WakeSignal, LoopStep 0 WakeSignal, LoopStep 0 WakeSignal] demo_stopping
          = Inr demo_exited"
    by (simp add: step_def demo_exited_steps)
  with demo_stopping_reachable show ?thesis by (rule reachable_exec)
qed

lemma demo_flags:
  "stopped demo_syncer" "\<not> shuttingDown demo_syncer"
  "\<not> stopped demo_running" "\<not> shuttingDown demo_running"
  "\<not> stopped demo_pending"
  "stopped demo_stopping" "shuttingDown demo_stopping"
  "stopped demo_exited" "\<not> shuttingDown demo_exited"
  by (simp_all add: demo_exited_def demo_stopping_def demo_pending_def demo_running_def
        demo_syncer_def model_defs)

subsection \<open>Sync\<close>

lemma Sync_uninterrupted:
  "reachable s \<Longrightarrow>
     (stopped s \<longrightarrow> Sync s = Inr (False, s)) \<and>
     (\<not> stopped s \<longrightarrow>
        (\<exists>c. syncCh s = Some c \<and> capacity c = 1 \<and> \<not> is_closed c \<and>
           (buffered c = 0 \<longrightarrow> Sync s = Inr (True, s\<lparr>syncCh := Some (c\<lparr>buffered := 1\<rparr>)\<rparr>)) \<and>
           (buffered c \<noteq> 0 \<longrightarrow> buffered c = 1 \<and> Sync s = Inr (False, s))))"
proof -
  assume "reachable s"
  then have inv: "channel_inv s" by (rule reachable_inv)
  have a: "stopped s \<longrightarrow> Sync s = Inr (False, s)"
    by (simp add: Sync_def IsStopped_def)
  have b: "\<not> stopped s \<longrightarrow>
        (\<exists>c. syncCh s = Some c \<and> capacity c = 1 \<and> \<not> is_closed c \<and>
           (buffered c = 0 \<longrightarrow> Sync s = Inr (True, s\<lparr>syncCh := Some (c\<lparr>buffered := 1\<rparr>)\<rparr>)) \<and>
           (buffered c \<noteq> 0 \<longrightarrow> buffered c = 1 \<and> Sync s = Inr (False, s)))"
    using inv
    by (auto simp: channel_inv_def Sync_def send_or_default_def IsStopped_def
             split: option.splits if_splits)
  from a b show ?thesis by blast
qed

text \<open>
  Claim C1 says that \<open>Sync\<close> on a stopped syncer returns false and buffers nothing, and on
  a running syncer sends without blocking and returns true exactly when the buffer was
  empty. A call that nothing interrupts does so (\<open>Sync_uninterrupted\<close>). But \<open>Sync\<close>
  releases the lock between its test and its send, and the code does not do what the
  claim says in this run of the example syncer: it is started; a caller begins \<open>Sync\<close>
  and \<open>IsStopped()\<close> answers false; another caller's \<open>Stop\<close> closes the channel; the
  first caller's send then panics, and \<open>Sync\<close> returns neither true nor false.
\<close>

theorem Sync_panics_after_racing_Stop:
  "begin_Sync demo_running = (None, demo_sync_tested) \<and>
   Stop demo_sync_tested = Inr (demo_stopping\<lparr>callers := [SyncTestedStopped]\<rparr>) \<and>
   caller_step 0 (demo_stopping\<lparr>callers := [SyncTestedStopped]\<rparr>) = Inl PanicSendOnClosedChannel \<and>
   exec [BeginStart, CallerStep 0, CallerStep 0, CallerStep 0, BeginSync, CallStop, CallerStep 0]
        demo_syncer = Inl PanicSendOnClosedChannel"
  by (simp add: demo_sync_tested_def demo_stopping_def demo_running_def demo_syncer_def model_defs)

subsection \<open>Start\<close>

text \<open>
  Claim C2. \<open>Start\<close> called with \<open>stopped = false\<close> returns the "already running" error,
  and \<open>Start\<close> called with \<open>stopped = true\<close> and \<open>shuttingDown = true\<close> returns the
  "shutting down" error; in both cases the state it leaves is the state it found, field
  for field.
\<close>

theorem Start_misuse_no_state_change:
  "(\<not> stopped s \<longrightarrow> Start s = (Some (ErrAlreadyRunning (key s)), s)) \<and>
   (stopped s \<and> shuttingDown s \<longrightarrow> Start s = (Some (ErrShuttingDown (key s)), s))"
  by (simp add: Start_def IsStopped_def IsShuttingDown_def)

theorem Start_misuse_no_state_change_witness:
  "\<not> stopped demo_running \<and> Start demo_running = (Some (ErrAlreadyRunning demo_key), demo_running) \<and>
   stopped demo_stopping \<and> shuttingDown demo_stopping \<and>
   Start demo_stopping = (Some (ErrShuttingDown demo_key), demo_stopping)"
  using Start_misuse_no_state_change[of demo_running] Start_misuse_no_state_change[of demo_stopping]
  by (simp add: demo_flags)
     (simp add: demo_stopping_def demo_running_def demo_syncer_def model_defs)

lemma Start_uninterrupted_from_Idle:
  "Idle s \<Longrightarrow>
     Start s = (None, s\<lparr>stopped := False,
                        syncCh := Some \<lparr>capacity = 1, buffered = 0, is_closed = False\<rparr>,
                        goroutines := goroutines s @ [AtSyncFunc]\<rparr>) \<and>
     Start (snd (Start s)) = (Some (ErrAlreadyRunning (key s)), snd (Start s))"
  by (simp add: Idle_def Start_def IsStopped_def IsShuttingDown_def init_def make_chan_def Let_def)

text \<open>
  Claim C3 says that \<open>Start\<close> on an Idle syncer returns nil, sets \<open>stopped = false\<close>,
  allocates a new channel of capacity 1 and spawns the loop, and that a second \<open>Start\<close>
  before a completed \<open>Stop\<close> is an error. A call that nothing interrupts does so
  (\<open>Start_uninterrupted_from_Idle\<close>). But \<open>Start\<close> releases the lock after each of its
  two tests, and \<open>init\<close> does not test again: in this run two callers begin \<open>Start\<close> on
  the new example syncer, both pass both tests, then each runs \<open>init\<close> and the \<open>go\<close>
  statement. Both calls return nil, with no \<open>Stop\<close> between them, and two loops run.
\<close>

theorem Start_twice_both_return_nil:
  "exec [BeginStart, BeginStart, CallerStep 0, CallerStep 1] demo_syncer = Inr demo_both_tested \<and>
   caller_step 0 demo_both_tested = Inr (None, demo_first_init) \<and>
   caller_step 0 demo_first_init = Inr (Some (StartReturned None), demo_first_started) \<and>
   caller_step 0 demo_first_started = Inr (None, demo_second_init) \<and>
   caller_step 0 demo_second_init = Inr (Some (StartReturned None), demo_two_loops) \<and>
   goroutines demo_two_loops = [AtSyncFunc, AtSyncFunc] \<and>
   callers demo_two_loops = []"
  by (simp add: demo_both_tested_def demo_first_init_def demo_first_started_def
        demo_second_init_def demo_two_loops_def demo_running_def demo_syncer_def model_defs)

subsection \<open>Stop\<close>

text \<open>
  Claim C4. In every reachable state \<open>Stop\<close> returns without a panic. If the syncer is
  already stopped the state is unchanged; otherwise \<open>stopped\<close> and \<open>shuttingDown\<close> are
  set and the signal channel, which was open, is closed. A second \<open>Stop\<close> right after the
  first leaves the state of the first.
\<close>

theorem Stop_idempotent:
  "reachable s \<Longrightarrow>
     (\<exists>s'. Stop s = Inr s' \<and> Stop s' = Inr s' \<and>
        (stopped s \<longrightarrow> s' = s) \<and>
        (\<not> stopped s \<longrightarrow>
           (\<exists>c. syncCh s = Some c \<and> \<not> is_closed c \<and>
                s' = s\<lparr>stopped := True, shuttingDown := True,
                       syncCh := Some (c\<lparr>is_closed := True\<rparr>)\<rparr>)))"
proof -
  assume "reachable s"
  then have inv: "channel_inv s" by (rule reachable_inv)
  show ?thesis
  proof (cases "stopped s")
    case True
    then show ?thesis by (simp add: Stop_def)
  next
    case False
    with inv obtain c where c: "syncCh s = Some c" "\<not> is_closed c"
      by (auto simp: channel_inv_def split: option.splits if_splits)
    with False show ?thesis
      by (simp add: Stop_def close_chan_def)
  qed
qed

theorem Stop_idempotent_witness:
  "reachable demo_running \<and> \<not> stopped demo_running \<and>
   Stop demo_running = Inr demo_stopping \<and> Stop demo_stopping = Inr demo_stopping"
proof -
  from Stop_idempotent[OF demo_running_reachable] obtain s'
    where "Stop demo_running = Inr s'" "Stop s' = Inr s'" by blast
  then show ?thesis
    using demo_running_reachable by (simp add: demo_stopping_step demo_flags)
qed

subsection \<open>The state flags and the channel\<close>

text \<open>
  Claim C7 says that \<open>shuttingDown = true\<close> implies \<open>stopped = true\<close> after construction
  and after every operation. The code breaks it in this run of the new example syncer:
  a first caller begins \<open>Start\<close> and passes both tests; a second caller runs \<open>Start\<close> to
  its end and then \<open>Stop\<close>, which sets both flags; now the first caller runs \<open>init\<close>,
  which sets \<open>stopped = false\<close> without looking at \<open>shuttingDown\<close>. The state reached
  has \<open>shuttingDown = true\<close> and \<open>stopped = false\<close>.
\<close>

theorem init_after_racing_Stop_breaks_flags:
  "exec [BeginStart, CallerStep 0,
         BeginStart, CallerStep 1, CallerStep 1, CallerStep 1,
         CallStop,
         CallerStep 0] demo_syncer = Inr demo_late_init \<and>
   shuttingDown demo_late_init \<and> \<not> stopped demo_late_init"
  by (simp add: demo_late_init_def demo_running_def demo_syncer_def model_defs)

text \<open>
  Claim C8, as the code has it. In every reachable state, if a loop is running (the
  syncer is not stopped, or a goroutine lives) or the syncer has been signalled to stop
  and the loop has not yet observed the closure (\<open>shuttingDown\<close> is set), then \<open>syncCh\<close>
  is non-nil. The converse does not hold: nothing sets \<open>syncCh\<close> back to nil, so once the
  loop has observed the closure and returned, \<open>syncCh\<close> is still non-nil, and it is then
  the closed channel of a stopped syncer.
\<close>

theorem syncCh_nonnil_while_loop_alive:
  "reachable s \<Longrightarrow>
     ((\<not> stopped s \<or> goroutines s \<noteq> [] \<or> shuttingDown s) \<longrightarrow> syncCh s \<noteq> None) \<and>
     (syncCh s \<noteq> None \<and> \<not> (\<not> stopped s \<or> goroutines s \<noteq> [] \<or> shuttingDown s)
        \<longrightarrow> (\<exists>c. syncCh s = Some c \<and> is_closed c))"
proof -
  assume "reachable s"
  then have "channel_inv s" by (rule reachable_inv)
  then show ?thesis
    by (auto simp: channel_inv_def split: option.splits if_splits)
qed

theorem syncCh_nonnil_while_loop_alive_witness:
  "reachable demo_running \<and> \<not> stopped demo_running \<and> syncCh demo_running \<noteq> None"
  using syncCh_nonnil_while_loop_alive[OF demo_running_reachable] demo_running_reachable
  by (simp add: demo_flags)

text \<open>
  The claim as the spec states it, an equivalence, fails in the state reached by
  \<open>Start\<close>, \<open>Stop\<close> and the return of the loop: no loop is running, the closure has been
  observed, and \<open>syncCh\<close> is non-nil.
\<close>

theorem syncCh_nil_iff_counterexample:
  "reachable demo_exited \<and> syncCh demo_exited \<noteq> None \<and>
   \<not> (\<not> stopped demo_exited \<or> goroutines demo_exited \<noteq> [] \<or> shuttingDown demo_exited)"
  using demo_exited_reachable
  by (simp add: demo_exited_def demo_stopping_def demo_running_def demo_syncer_def model_defs)

subsection \<open>SetSyncFunc\<close>

text \<open>
  Claim C10. \<open>SetSyncFunc f\<close> stores \<open>f\<close> in \<open>syncFunc\<close> and changes nothing else: the
  flags, the channel, the backoff policy, the identity and every other part of the state
  stay as they are. It does so in every state, running or not: it checks nothing.
\<close>

theorem SetSyncFunc_frame:
  "syncFunc (SetSyncFunc f s) = f \<and>
   stopped (SetSyncFunc f s) = stopped s \<and>
   shuttingDown (SetSyncFunc f s) = shuttingDown s \<and>
   syncCh (SetSyncFunc f s) = syncCh s \<and>
   backoff (SetSyncFunc f s) = backoff s \<and>
   key (SetSyncFunc f s) = key s \<and>
   negName (SetSyncFunc f s) = negName s \<and>
   serviceLister (SetSyncFunc f s) = serviceLister s \<and>
   recorder (SetSyncFunc f s) = recorder s \<and>
   syncCalls (SetSyncFunc f s) = syncCalls s \<and>
   goroutines (SetSyncFunc f s) = goroutines s \<and>
   SetSyncFunc f s = s\<lparr>syncFunc := f\<rparr>"
  by (simp add: SetSyncFunc_def)

subsection \<open>One iteration of the loop\<close>

text \<open>
  Claim C5. One iteration of the loop of a live goroutine, up to its \<open>select\<close>. If the
  sync function fails and the backoff policy reports retries exhausted, the goroutine
  waits with the \<open>retryCh\<close> that never fires and the message says "(will not retry)"; if
  it fails and the policy returns a delay, the goroutine waits with a timer armed for
  that delay and the message says "(will retry)". In both cases one warning event with
  that message is recorded if the lookup finds the service, and none if it does not;
  either way the goroutine goes on to its \<open>select\<close>. If the sync function succeeds, the
  attempt count of the backoff policy is 0 afterwards, no timer is armed and no event is
  recorded.
\<close>

theorem loop_body_outcomes:
  "i < length (goroutines s) \<Longrightarrow>
   (\<forall>e. syncFunc s (syncCalls s) = Some e \<and>
        snd (fst (NextRetryDelay (backoff s))) = Some ErrRetriesExceeded \<longrightarrow>
        goroutines (loop_body i s) ! i = AtSelect None \<and>
        (\<forall>svc. getService (serviceLister s) (Namespace (key s)) (Name (key s)) = Some svc \<longrightarrow>
           recorder (loop_body i s) = recorder s @
             [\<lparr>subject = svc, eventtype = ''Warning'', reason = ''SyncNetworkEndpointGroupFailed'',
               argNegName = negName s, argRetryMesg = ''(will not retry)'', argErr = e\<rparr>])) \<and>
   (\<forall>e. syncFunc s (syncCalls s) = Some e \<and>
        snd (fst (NextRetryDelay (backoff s))) \<noteq> Some ErrRetriesExceeded \<longrightarrow>
        goroutines (loop_body i s) ! i = AtSelect (Some (fst (fst (NextRetryDelay (backoff s))))) \<and>
        (\<forall>svc. getService (serviceLister s) (Namespace (key s)) (Name (key s)) = Some svc \<longrightarrow>
           recorder (loop_body i s) = recorder s @
             [\<lparr>subject = svc, eventtype = ''Warning'', reason = ''SyncNetworkEndpointGroupFailed'',
               argNegName = negName s, argRetryMesg = ''(will retry)'', argErr = e\<rparr>])) \<and>
   (getService (serviceLister s) (Namespace (key s)) (Name (key s)) = None \<longrightarrow>
        recorder (loop_body i s) = recorder s \<and>
        (\<exists>retryCh. goroutines (loop_body i s) ! i = AtSelect retryCh)) \<and>
   (syncFunc s (syncCalls s) = None \<longrightarrow>
        retryCount (backoff (loop_body i s)) = 0 \<and>
        goroutines (loop_body i s) ! i = AtSelect None \<and>
        recorder (loop_body i s) = recorder s)"
  by (simp add: loop_body_def Let_def failure_event_def ResetRetryDelay_def
           split: option.splits)

lemma demo_failing_value:
  "demo_failing = demo_syncer\<lparr>syncFunc := (\<lambda>_. Some ''quota exceeded''), stopped := False,
     syncCh := Some \<lparr>capacity = 1, buffered = 0, is_closed = False\<rparr>, goroutines := [AtSyncFunc]\<rparr>"
  by (simp add: demo_failing_def demo_syncer_def model_defs)

lemma demo_exhausted_value:
  "demo_exhausted = demo_failing\<lparr>
     recorder := [failure_event \<lparr>svcNamespace = ''default'', svcName = ''web''\<rparr> ''neg-web'' ''(will retry)'' ''quota exceeded'',
                  failure_event \<lparr>svcNamespace = ''default'', svcName = ''web''\<rparr> ''neg-web'' ''(will retry)'' ''quota exceeded'',
                  failure_event \<lparr>svcNamespace = ''default'', svcName = ''web''\<rparr> ''neg-web'' ''(will retry)'' ''quota exceeded''],
     backoff := \<lparr>maxRetries = 3, minRetryDelay = 1, maxRetryDelay = 60, retryCount = 3\<rparr>,
     syncCalls := 3\<rparr>"
  by (simp add: demo_exhausted_def demo_failing_value)
     (simp add: demo_syncer_def demo_key_def demo_lister_def  newSyncer_def
        NewExponentialBackendOffHandler_def NextRetryDelay_def loop_body_def loop_select_def
        loop_step_def getService_def Let_def)

theorem loop_body_outcomes_witness:
  "0 < length (goroutines demo_failing) \<and>
   syncFunc demo_failing (syncCalls demo_failing) = Some ''quota exceeded'' \<and>
   snd (fst (NextRetryDelay (backoff demo_failing))) \<noteq> Some ErrRetriesExceeded \<and>
   goroutines (loop_body 0 demo_failing) ! 0 = AtSelect (Some 1) \<and>
   snd (fst (NextRetryDelay (backoff demo_exhausted))) = Some ErrRetriesExceeded \<and>
   goroutines (loop_body 0 demo_exhausted) ! 0 = AtSelect None \<and>
   map argRetryMesg (recorder (loop_body 0 demo_exhausted)) =
     [''(will retry)'', ''(will retry)'', ''(will retry)'', ''(will not retry)''] \<and>
   syncFunc demo_running (syncCalls demo_running) = None \<and>
   retryCount (backoff (loop_body 0 demo_running)) = 0"
proof -
  have g: "0 < length (goroutines demo_failing)" "0 < length (goroutines demo_exhausted)"
    "0 < length (goroutines demo_running)"
    by (simp_all add: demo_exhausted_value demo_failing_value demo_running_def demo_syncer_def model_defs)
  have f: "syncFunc demo_failing (syncCalls demo_failing) = Some ''quota exceeded''"
    "syncFunc demo_exhausted (syncCalls demo_exhausted) = Some ''quota exceeded''"
    "syncFunc demo_running (syncCalls demo_running) = None"
    by (simp_all add: demo_exhausted_value demo_failing_value demo_running_def demo_syncer_def model_defs)
  have b: "NextRetryDelay (backoff demo_failing) =
             ((1, None), \<lparr>maxRetries = 3, minRetryDelay = 1, maxRetryDelay = 60, retryCount = 1\<rparr>)"
    "NextRetryDelay (backoff demo_exhausted) = ((0, Some ErrRetriesExceeded), backoff demo_exhausted)"
    by (simp_all add: demo_exhausted_value demo_failing_value demo_syncer_def newSyncer_def
          NewExponentialBackendOffHandler_def NextRetryDelay_def)
  have l: "getService (serviceLister demo_exhausted) (Namespace (key demo_exhausted)) (Name (key demo_exhausted))
             = Some \<lparr>svcNamespace = ''default'', svcName = ''web''\<rparr>"
    by (simp add: demo_exhausted_value demo_failing_value demo_syncer_def newSyncer_def
          demo_key_def demo_lister_def getService_def)
  have r: "map argRetryMesg (recorder demo_exhausted) = [''(will retry)'', ''(will retry)'', ''(will retry)'']"
    by (simp add: demo_exhausted_value failure_event_def)
  from loop_body_outcomes[OF g(1)] f(1) b(1)
  have 1: "goroutines (loop_body 0 demo_failing) ! 0 = AtSelect (Some 1)" by simp
  from loop_body_outcomes[OF g(2)] f(2) b(2) l
  have 2: "goroutines (loop_body 0 demo_exhausted) ! 0 = AtSelect None"
    and 3: "map argRetryMesg (recorder (loop_body 0 demo_exhausted)) =
     [''(will retry)'', ''(will retry)'', ''(will retry)'', ''(will not retry)'']"
    by (simp_all add: r)
  from loop_body_outcomes[OF g(3)] f(3)
  have 4: "retryCount (backoff (loop_body 0 demo_running)) = 0" by simp
  from 1 2 3 4 g f b show ?thesis by simp
qed

subsection \<open>The default sync function\<close>

lemma default_inv_new: "default_inv evs (newSyncer k n lister evs retries minDelay maxDelay)"
  by (simp add: default_inv_def newSyncer_def NewExponentialBackendOffHandler_def)

lemma default_inv_loop_body: "default_inv evs s \<Longrightarrow> default_inv evs (loop_body i s)"
  by (auto simp: default_inv_def loop_body_def Let_def ResetRetryDelay_def
           dest!: subsetD[OF set_update_subset_insert])

lemma default_inv_loop_select: "default_inv evs s \<Longrightarrow> default_inv evs (loop_select w i r s)"
  by (auto simp: default_inv_def loop_select_def
           split: option.splits
           dest!: subsetD[OF set_update_subset_insert])

lemma default_inv_loop_return: "default_inv evs s \<Longrightarrow> default_inv evs (loop_return i s)"
  by (auto simp: default_inv_def loop_return_def dest!: in_set_takeD in_set_dropD)

lemma default_inv_caller_step:
  "default_inv evs s \<Longrightarrow> caller_step i s = Inr (r, s') \<Longrightarrow> default_inv evs s'"
  by (auto simp: default_inv_def caller_step_def init_def send_or_default_def
           split: if_splits caller.splits option.splits sum.splits)

lemma default_inv_step:
  "default_inv evs s \<Longrightarrow> \<not> is_SetSyncFunc a \<Longrightarrow> step a s = Inr s' \<Longrightarrow> default_inv evs s'"
proof (cases a)
  case BeginStart
  assume "default_inv evs s" "step a s = Inr s'"
  with BeginStart show ?thesis
    by (auto simp: step_def default_inv_def begin_Start_def split: if_splits)
next
  case BeginSync
  assume "default_inv evs s" "step a s = Inr s'"
  with BeginSync show ?thesis
    by (auto simp: step_def default_inv_def begin_Sync_def split: if_splits)
next
  case (CallerStep i)
  assume "default_inv evs s" "step a s = Inr s'"
  with CallerStep show ?thesis
    by (auto simp: step_def split: sum.splits intro: default_inv_caller_step[of evs s])
next
  case CallStop
  assume "default_inv evs s" "step a s = Inr s'"
  with CallStop show ?thesis
    by (auto simp: step_def default_inv_def Stop_def split: if_splits sum.splits)
next
  case (CallSetSyncFunc f)
  assume "\<not> is_SetSyncFunc a"
  with CallSetSyncFunc show ?thesis by simp
next
  case (LoopStep i w)
  assume "default_inv evs s" "step a s = Inr s'"
  with LoopStep show ?thesis
    by (auto simp: step_def loop_step_def default_inv_loop_body default_inv_loop_select
               default_inv_loop_return
             split: goroutine.splits)
qed

lemma default_inv_exec:
  "default_inv evs s \<Longrightarrow> \<forall>a \<in> set as. \<not> is_SetSyncFunc a \<Longrightarrow> exec as s = Inr t \<Longrightarrow> default_inv evs t"
proof (induction as arbitrary: s)
  case Nil
  then show ?case by simp
next
  case (Cons a as)
  from Cons.prems(3) obtain s' where s': "step a s = Inr s'" "exec as s' = Inr t"
    by (auto split: sum.splits)
  from Cons.prems(1,2) s'(1) have "default_inv evs s'"
    by (auto intro: default_inv_step)
  with Cons.IH Cons.prems(2) s'(2) show ?case by simp
qed

text \<open>
  Claim C9. The sync function of a new syncer returns nil at every call. In every state
  reached from a new syncer by method calls other than \<open>SetSyncFunc\<close> and by steps of the
  loop, it is still that function, so every iteration's sync succeeds; the attempt count
  of the backoff policy is 0, no goroutine waits with an armed retry timer, and the
  recorder holds no event beyond those it had at construction.
\<close>

theorem default_syncFunc_never_fails:
  "(\<forall>j. syncFunc (newSyncer k n lister evs retries minDelay maxDelay) j = None) \<and>
   (\<forall>as t. exec as (newSyncer k n lister evs retries minDelay maxDelay) = Inr t \<and>
            (\<forall>a \<in> set as. \<not> is_SetSyncFunc a) \<longrightarrow>
        (\<forall>j. syncFunc t j = None) \<and>
        retryCount (backoff t) = 0 \<and>
        (\<forall>g \<in> set (goroutines t). \<forall>d. g \<noteq> AtSelect (Some d)) \<and>
        recorder t = evs)"
proof -
  have "default_inv evs t"
    if "exec as (newSyncer k n lister evs retries minDelay maxDelay) = Inr t"
       "\<forall>a \<in> set as. \<not> is_SetSyncFunc a" for as t
    using default_inv_exec[OF default_inv_new that(2) that(1)] .
  then show ?thesis
    by (fastforce simp: default_inv_def newSyncer_def)
qed

theorem default_syncFunc_never_fails_witness:
  "exec [BeginStart, CallerStep 0, CallerStep 0, CallerStep 0, LoopStep 0 WakeSignal,
         BeginSync, CallerStep 0, LoopStep 0 WakeSignal, LoopStep 0 WakeSignal]
        demo_syncer = Inr (demo_running\<lparr>syncCalls := 2, goroutines := [AtSelect None]\<rparr>) \<and>
   \<not> list_ex is_SetSyncFunc
        [BeginStart, CallerStep 0, CallerStep 0, CallerStep 0, LoopStep 0 WakeSignal,
         BeginSync, CallerStep 0, LoopStep 0 WakeSignal, LoopStep 0 WakeSignal] \<and>
   retryCount (backoff (demo_running\<lparr>syncCalls := 2, goroutines := [AtSelect None]\<rparr>)) = 0 \<and>
   recorder (demo_running\<lparr>syncCalls := 2, goroutines := [AtSelect None]\<rparr>) = []"
proof -
  have e: "exec [BeginStart, CallerStep 0, CallerStep 0, CallerStep 0, LoopStep 0 WakeSignal,
         BeginSync, CallerStep 0, LoopStep 0 WakeSignal, LoopStep 0 WakeSignal]
        (newSyncer demo_key ''neg-web'' demo_lister [] 3 1 60)
        = Inr (demo_running\<lparr>syncCalls := 2, goroutines := [AtSelect None]\<rparr>)"
    by (simp add: demo_running_def demo_syncer_def model_defs)
  have n: "\<forall>a \<in> set [BeginStart, CallerStep 0, CallerStep 0, CallerStep 0, LoopStep 0 WakeSignal,
         BeginSync, CallerStep 0, LoopStep 0 WakeSignal, LoopStep 0 WakeSignal].
      \<not> is_SetSyncFunc a" by simp
  from default_syncFunc_never_fails[of demo_key "''neg-web''" demo_lister "[]" 3 1 60] e n
  have "retryCount (backoff (demo_running\<lparr>syncCalls := 2, goroutines := [AtSelect None]\<rparr>)) = 0 \<and>
        recorder (demo_running\<lparr>syncCalls := 2, goroutines := [AtSelect None]\<rparr>) = []"
    by blast
  with e n show ?thesis by (simp add: demo_syncer_def)
qed

subsection \<open>The loop after Stop\<close>















end
